theory Spec2Isabelle
  imports Main "HOL-Library.Word"
begin

unbundle bit_operations_syntax

section \<open>Machine types\<close>

type_synonym u8 = "8 word"
type_synonym u32 = "32 word"

section \<open>Support primitives used by cpuinfo.h\<close>

text \<open>
  Modelled from the spec: \<^verbatim>\<open>Support::BitWord\<close> and \<^verbatim>\<open>Support::kBitWordSizeInBits\<close> are
  declared in core/support.h, which is not among the sources. The spec says the feature set is
  backed by fixed-width words whose width is a storage-layout choice (32 or 64 bits). A
  \<^verbatim>\<open>BitWord\<close> is modelled as \<open>'w word\<close>; the width \<open>'w\<close> is a parameter of the whole
  development, and \<^verbatim>\<open>kBitWordSizeInBits\<close> is the number of bits of that type, held in a
  \<^verbatim>\<open>uint32_t\<close>.
\<close>

definition kBitWordSizeInBits :: "'w::len itself \<Rightarrow> u32" where
  "kBitWordSizeInBits t = of_nat LENGTH('w)"

text \<open>\<^verbatim>\<open>enum : uint32_t { kMaxFeatures = 256, kNumBitWords = kMaxFeatures / kBitWordSizeInBits }\<close>\<close>

definition kMaxFeatures :: u32 where
  "kMaxFeatures = 256"

definition kNumBitWords :: "'w::len itself \<Rightarrow> u32" where
  "kNumBitWords t = kMaxFeatures div kBitWordSizeInBits t"

text \<open>
  Modelled from the spec: \<^verbatim>\<open>Support::Array<T, N>\<close> (core/support.h, not among the sources) is a
  fixed-size array, here a list whose length is \<open>N\<close>. Its \<^verbatim>\<open>operator[]\<close> is a checked access:
  an index outside the array is a failed assertion, the value \<open>None\<close>. \<^verbatim>\<open>fill\<close> overwrites
  every element, \<^verbatim>\<open>aggregate<Support::Or>(init)\<close> folds bitwise OR over the elements from
  \<open>init\<close> (the spec: \<^verbatim>\<open>empty()\<close> is true iff every storage word is zero), and \<^verbatim>\<open>==\<close>
  compares element by element.
\<close>

definition Array_at :: "'a list \<Rightarrow> u32 \<Rightarrow> 'a option" where
  "Array_at xs i = (if unat i < length xs then Some (xs ! unat i) else None)"

definition Array_fill :: "'a list \<Rightarrow> 'a \<Rightarrow> 'a list" where
  "Array_fill xs v = replicate (length xs) v"

definition Array_aggregate_Or :: "'w::len word list \<Rightarrow> 'w word \<Rightarrow> 'w word" where
  "Array_aggregate_Or xs initialValue = foldl (\<lambda>value x. value OR x) initialValue xs"

section \<open>CpuFeatures::Data\<close>

record (overloaded) 'w Data =
  bits :: "'w word list"

text \<open>
  The array type fixes the number of words: a \<^verbatim>\<open>Data\<close> value of the program always has
  \<^verbatim>\<open>kNumBitWords\<close> words.
\<close>

definition wf_Data :: "('w::len) Data \<Rightarrow> bool" where
  "wf_Data d = (length (bits d) = unat (kNumBitWords TYPE('w)))"

text \<open>\<^verbatim>\<open>Data _data {}\<close>: the value-initialised (all zero) feature data of a fresh CpuFeatures.\<close>

definition Data_init :: "('w::len) Data" where
  "Data_init = \<lparr>bits = replicate (unat (kNumBitWords TYPE('w))) 0\<rparr>"

definition empty :: "('w::len) Data \<Rightarrow> bool" where
  "empty d = (Array_aggregate_Or (bits d) 0 = 0)"

definition eq :: "('w::len) Data \<Rightarrow> 'w Data \<Rightarrow> bool" where
  "eq d other = (bits d = bits other)"

definition reset :: "('w::len) Data \<Rightarrow> 'w Data" where
  "reset d = d\<lparr>bits := Array_fill (bits d) 0\<rparr>"

text \<open>
  \<^verbatim>\<open>has(featureId)\<close>: the assertion \<^verbatim>\<open>uint32_t(featureId) < kMaxFeatures\<close> is the first
  branch; a failed assertion is \<open>None\<close>. The feature id is taken after its conversion to
  \<^verbatim>\<open>uint32_t\<close>.
\<close>

definition has :: "('w::len) Data \<Rightarrow> u32 \<Rightarrow> bool option" where
  "has d featureId =
     (if featureId < kMaxFeatures then
        (let idx = featureId div kBitWordSizeInBits TYPE('w);
             bit' = featureId mod kBitWordSizeInBits TYPE('w)
         in case Array_at (bits d) idx of
              None \<Rightarrow> None
            | Some w \<Rightarrow> Some ((drop_bit (unat bit') w AND 1) \<noteq> 0))
      else None)"

text \<open>
  \<^verbatim>\<open>hasAny(featureId)\<close> and \<^verbatim>\<open>hasAny(featureId, otherFeatureIds...)\<close>: the parameter pack is
  the list of the remaining ids. Both operands of \<^verbatim>\<open>|\<close> are evaluated, so an assertion that
  fails in either fails the call.
\<close>

fun hasAny :: "('w::len) Data \<Rightarrow> u32 \<Rightarrow> u32 list \<Rightarrow> bool option" where
  "hasAny d featureId [] = has d featureId"
| "hasAny d featureId (nextId # otherFeatureIds) =
     (case has d featureId of
        None \<Rightarrow> None
      | Some a \<Rightarrow>
          (case hasAny d nextId otherFeatureIds of
             None \<Rightarrow> None
           | Some b \<Rightarrow> Some (((of_bool a :: u32) OR of_bool b) \<noteq> 0)))"

text \<open>
  \<^verbatim>\<open>hasAll(other)\<close>: the loop \<^verbatim>\<open>for (uint32_t i = 0; i < kNumBitWords; i++)\<close> with the
  accumulator \<^verbatim>\<open>result\<close>.
\<close>

function hasAll_loop :: "('w::len) Data \<Rightarrow> 'w Data \<Rightarrow> u32 \<Rightarrow> u32 \<Rightarrow> u32 option" where
  "hasAll_loop d other i result =
     (if i < kNumBitWords TYPE('w) then
        (case Array_at (bits d) i of
           None \<Rightarrow> None
         | Some a \<Rightarrow>
             (case Array_at (bits other) i of
                None \<Rightarrow> None
              | Some b \<Rightarrow> hasAll_loop d other (i + 1) (result AND of_bool ((a AND b) = b))))
      else Some result)"
  by pat_completeness auto
termination
proof (relation "measure (\<lambda>(d, other, i, result). 2 ^ 32 - unat i)")
  show "wf (measure (\<lambda>(d :: ('w::len) Data, other :: 'w Data, i :: u32, result :: u32).
                      2 ^ 32 - unat i))"
    by simp
next
  fix d other :: "('w::len) Data" and i result :: u32 and a b :: "'w word"
  assume lt: "i < kNumBitWords TYPE('w)"
  then have "unat (i + 1) = Suc (unat i)"
    by unat_arith
  moreover have "unat (i + 1) < 2 ^ 32"
    using unsigned_less [of "i + 1"] by simp
  ultimately show "((d, other, i + 1, result AND of_bool ((a AND b) = b)), (d, other, i, result))
      \<in> measure (\<lambda>(d, other, i, result). 2 ^ 32 - unat i)"
    by simp
qed

declare hasAll_loop.simps [simp del]

definition hasAll :: "('w::len) Data \<Rightarrow> 'w Data \<Rightarrow> bool option" where
  "hasAll d other = map_option (\<lambda>result. result \<noteq> 0) (hasAll_loop d other 0 1)"

text \<open>\<^verbatim>\<open>add(featureId)\<close>: \<^verbatim>\<open>_bits[idx] |= BitWord(1) << bit\<close> behind the assertion.\<close>

definition add :: "('w::len) Data \<Rightarrow> u32 \<Rightarrow> 'w Data option" where
  "add d featureId =
     (if featureId < kMaxFeatures then
        (let idx = featureId div kBitWordSizeInBits TYPE('w);
             bit' = featureId mod kBitWordSizeInBits TYPE('w)
         in case Array_at (bits d) idx of
              None \<Rightarrow> None
            | Some w \<Rightarrow> Some (d\<lparr>bits := (bits d)[unat idx := w OR push_bit (unat bit') 1]\<rparr>))
      else None)"

text \<open>\<^verbatim>\<open>add(featureId, otherFeatureIds...)\<close>: one id after the other, left to right.\<close>

fun add_ids :: "('w::len) Data \<Rightarrow> u32 \<Rightarrow> u32 list \<Rightarrow> 'w Data option" where
  "add_ids d featureId [] = add d featureId"
| "add_ids d featureId (nextId # otherFeatureIds) =
     (case add d featureId of
        None \<Rightarrow> None
      | Some d' \<Rightarrow> add_ids d' nextId otherFeatureIds)"

text \<open>\<^verbatim>\<open>addIf(condition, featureId)\<close>: \<^verbatim>\<open>_bits[idx] |= BitWord(condition) << bit\<close>.\<close>

definition addIf :: "('w::len) Data \<Rightarrow> bool \<Rightarrow> u32 \<Rightarrow> 'w Data option" where
  "addIf d condition featureId =
     (if featureId < kMaxFeatures then
        (let idx = featureId div kBitWordSizeInBits TYPE('w);
             bit' = featureId mod kBitWordSizeInBits TYPE('w)
         in case Array_at (bits d) idx of
              None \<Rightarrow> None
            | Some w \<Rightarrow>
                Some (d\<lparr>bits := (bits d)[unat idx := w OR push_bit (unat bit') (of_bool condition)]\<rparr>))
      else None)"

fun addIf_ids :: "('w::len) Data \<Rightarrow> bool \<Rightarrow> u32 \<Rightarrow> u32 list \<Rightarrow> 'w Data option" where
  "addIf_ids d condition featureId [] = addIf d condition featureId"
| "addIf_ids d condition featureId (nextId # otherFeatureIds) =
     (case addIf d condition featureId of
        None \<Rightarrow> None
      | Some d' \<Rightarrow> addIf_ids d' condition nextId otherFeatureIds)"

text \<open>\<^verbatim>\<open>remove(featureId)\<close>: \<^verbatim>\<open>_bits[idx] &= ~(BitWord(1) << bit)\<close>.\<close>

definition remove :: "('w::len) Data \<Rightarrow> u32 \<Rightarrow> 'w Data option" where
  "remove d featureId =
     (if featureId < kMaxFeatures then
        (let idx = featureId div kBitWordSizeInBits TYPE('w);
             bit' = featureId mod kBitWordSizeInBits TYPE('w)
         in case Array_at (bits d) idx of
              None \<Rightarrow> None
            | Some w \<Rightarrow> Some (d\<lparr>bits := (bits d)[unat idx := w AND NOT (push_bit (unat bit') 1)]\<rparr>))
      else None)"

fun remove_ids :: "('w::len) Data \<Rightarrow> u32 \<Rightarrow> u32 list \<Rightarrow> 'w Data option" where
  "remove_ids d featureId [] = remove d featureId"
| "remove_ids d featureId (nextId # otherFeatureIds) =
     (case remove d featureId of
        None \<Rightarrow> None
      | Some d' \<Rightarrow> remove_ids d' nextId otherFeatureIds)"

text \<open>
  Feature identifiers of \<^verbatim>\<open>CpuFeatures::X86::Id\<close> and \<^verbatim>\<open>CpuFeatures::ARM::Id\<close> (both
  \<^verbatim>\<open>enum Id : uint8_t\<close>) that the development names, by their position in the enumeration.
\<close>

definition X86_kNone :: u32 where "X86_kNone = 0"
definition X86_kAVX :: u32 where "X86_kAVX = 13"
definition X86_kAVX2 :: u32 where "X86_kAVX2 = 14"
definition ARM_kNone :: u32 where "ARM_kNone = 0"

section \<open>Sequences of mutation calls\<close>

text \<open>
  A feature set reachable from the zero-initialised state is the result of a finite sequence
  of calls of the mutation operations \<^verbatim>\<open>add\<close>, \<open>addIf\<close> and \<open>remove\<close>. A call is recorded
  with its arguments, the first id and the pack of the further ones; \<open>ids_of\<close> lists the ids
  a call is given and \<open>ids_set\<close> those it is asked to set (none for \<open>remove\<close>, and none
  for \<open>addIf\<close> with a false condition).
\<close>

datatype mutation = Add u32 "u32 list" | AddIf bool u32 "u32 list" | Remove u32 "u32 list"

fun apply_mutation :: "('w::len) Data \<Rightarrow> mutation \<Rightarrow> 'w Data option" where
  "apply_mutation d (Add featureId otherFeatureIds) = add_ids d featureId otherFeatureIds"
| "apply_mutation d (AddIf condition featureId otherFeatureIds) =
     addIf_ids d condition featureId otherFeatureIds"
| "apply_mutation d (Remove featureId otherFeatureIds) = remove_ids d featureId otherFeatureIds"

fun run_mutations :: "('w::len) Data \<Rightarrow> mutation list \<Rightarrow> 'w Data option" where
  "run_mutations d [] = Some d"
| "run_mutations d (m # ms) =
     (case apply_mutation d m of None \<Rightarrow> None | Some d' \<Rightarrow> run_mutations d' ms)"

fun ids_of :: "mutation \<Rightarrow> u32 list" where
  "ids_of (Add featureId otherFeatureIds) = featureId # otherFeatureIds"
| "ids_of (AddIf condition featureId otherFeatureIds) = featureId # otherFeatureIds"
| "ids_of (Remove featureId otherFeatureIds) = featureId # otherFeatureIds"

fun ids_set :: "mutation \<Rightarrow> u32 list" where
  "ids_set (Add featureId otherFeatureIds) = featureId # otherFeatureIds"
| "ids_set (AddIf condition featureId otherFeatureIds) =
     (if condition then featureId # otherFeatureIds else [])"
| "ids_set (Remove featureId otherFeatureIds) = []"

section \<open>CpuFeatures and CpuInfo\<close>

record (overloaded) 'w CpuFeatures =
  data :: "'w Data"

definition CpuFeatures_empty :: "('w::len) CpuFeatures \<Rightarrow> bool" where
  "CpuFeatures_empty f = empty (data f)"

text \<open>
  Modelled from the spec: \<^verbatim>\<open>Arch\<close> and \<^verbatim>\<open>SubArch\<close> (core/environment.h) and
  \<^verbatim>\<open>FixedString<N>\<close> (core/string.h) are not among the sources. The spec calls the first two
  architecture tags; they are one-byte enumerations, modelled by their byte. A
  \<^verbatim>\<open>FixedString<N>\<close> is the bounded character buffer of the spec (16 bytes for the vendor, 64
  for the brand); read through \<^verbatim>\<open>const char*\<close> it is the C string before the first NUL, and a
  buffer with no NUL has no such string.
\<close>

type_synonym Arch = u8
type_synonym SubArch = u8
type_synonym FixedString = "char list"

definition c_str :: "FixedString \<Rightarrow> string option" where
  "c_str s = (if CHR 0x00 \<in> set s then Some (takeWhile (\<lambda>c. c \<noteq> CHR 0x00) s) else None)"

record (overloaded) 'w CpuInfo =
  m_arch :: Arch
  m_subArch :: SubArch
  m_wasDetected :: bool
  m_reserved :: u8
  m_familyId :: u32
  m_modelId :: u32
  m_brandId :: u32
  m_stepping :: u32
  m_processorType :: u32
  m_maxLogicalProcessors :: u32
  m_cacheLineSize :: u32
  m_hwThreadCount :: u32
  m_vendor :: FixedString
  m_brand :: FixedString
  m_features :: "'w CpuFeatures"

text \<open>
  \<^verbatim>\<open>reset()\<close> is \<^verbatim>\<open>memset(this, 0, sizeof(*this))\<close>: every byte of every member becomes
  zero, whatever the object held before. A zero byte is the tag 0, the boolean false, the
  integer 0, the NUL character and the zero bit word.
\<close>

definition CpuInfo_reset :: "('w::len) CpuInfo \<Rightarrow> 'w CpuInfo" where
  "CpuInfo_reset c =
     \<lparr> m_arch = 0, m_subArch = 0, m_wasDetected = False, m_reserved = 0,
       m_familyId = 0, m_modelId = 0, m_brandId = 0, m_stepping = 0, m_processorType = 0,
       m_maxLogicalProcessors = 0, m_cacheLineSize = 0, m_hwThreadCount = 0,
       m_vendor = replicate 16 (CHR 0x00), m_brand = replicate 64 (CHR 0x00),
       m_features = \<lparr>data = \<lparr>bits = replicate (unat (kNumBitWords TYPE('w))) 0\<rparr>\<rparr> \<rparr>"

text \<open>
  \<^verbatim>\<open>CpuInfo() { reset(); }\<close>: the constructor runs \<^verbatim>\<open>reset\<close> on the storage of the new
  object, whose previous content \<open>storage\<close> is arbitrary.
\<close>

definition CpuInfo_new :: "('w::len) CpuInfo \<Rightarrow> 'w CpuInfo" where
  "CpuInfo_new storage = CpuInfo_reset storage"

definition initArch :: "('w::len) CpuInfo \<Rightarrow> Arch \<Rightarrow> SubArch \<Rightarrow> 'w CpuInfo" where
  "initArch c arch subArch = (c\<lparr>m_arch := arch\<rparr>)\<lparr>m_subArch := subArch\<rparr>"

definition arch :: "('w::len) CpuInfo \<Rightarrow> Arch" where "arch c = m_arch c"
definition subArch :: "('w::len) CpuInfo \<Rightarrow> SubArch" where "subArch c = m_subArch c"
definition wasDetected :: "('w::len) CpuInfo \<Rightarrow> bool" where "wasDetected c = m_wasDetected c"
definition familyId :: "('w::len) CpuInfo \<Rightarrow> u32" where "familyId c = m_familyId c"
definition modelId :: "('w::len) CpuInfo \<Rightarrow> u32" where "modelId c = m_modelId c"
definition brandId :: "('w::len) CpuInfo \<Rightarrow> u32" where "brandId c = m_brandId c"
definition stepping :: "('w::len) CpuInfo \<Rightarrow> u32" where "stepping c = m_stepping c"
definition processorType :: "('w::len) CpuInfo \<Rightarrow> u32" where "processorType c = m_processorType c"
definition maxLogicalProcessors :: "('w::len) CpuInfo \<Rightarrow> u32" where
  "maxLogicalProcessors c = m_maxLogicalProcessors c"
definition cacheLineSize :: "('w::len) CpuInfo \<Rightarrow> u32" where "cacheLineSize c = m_cacheLineSize c"
definition hwThreadCount :: "('w::len) CpuInfo \<Rightarrow> u32" where "hwThreadCount c = m_hwThreadCount c"
definition vendor :: "('w::len) CpuInfo \<Rightarrow> string option" where "vendor c = c_str (m_vendor c)"
definition brand :: "('w::len) CpuInfo \<Rightarrow> string option" where "brand c = c_str (m_brand c)"
definition features :: "('w::len) CpuInfo \<Rightarrow> 'w CpuFeatures" where "features c = m_features c"

section \<open>a32::Inst\<close>

text \<open>
  \<^verbatim>\<open>enum Id : uint32_t\<close> of a32globals.h: the enumerators in their order, from
  \<^verbatim>\<open>kIdNone = 0\<close> to \<^verbatim>\<open>kIdYield\<close>. The value of an enumerator is its position, and
  \<^verbatim>\<open>_kIdCount\<close>, which closes the enumeration, is the number of enumerators before it.
\<close>

definition Inst_Id :: "string list" where
  "Inst_Id = [
    ''kIdNone'', ''kIdAdc'', ''kIdAdcs'', ''kIdAdd'', ''kIdAdds'', ''kIdAdr'', ''kIdAesd'',
    ''kIdAese'', ''kIdAesimc'', ''kIdAesmc'', ''kIdAnd'', ''kIdAnds'', ''kIdAsr'', ''kIdAsrs'',
    ''kIdB'', ''kIdBfc'', ''kIdBfi'', ''kIdBic'', ''kIdBics'', ''kIdBkpt'', ''kIdBl'', ''kIdBlx'',
    ''kIdBx'', ''kIdBxj'', ''kIdClrex'', ''kIdClz'', ''kIdCmn'', ''kIdCmp'', ''kIdCps'',
    ''kIdCpsid'', ''kIdCpsie'', ''kIdCrc32b'', ''kIdCrc32cb'', ''kIdCrc32ch'', ''kIdCrc32cw'',
    ''kIdCrc32h'', ''kIdCrc32w'', ''kIdDbg'', ''kIdDmb'', ''kIdDsb'', ''kIdEor'', ''kIdEors'',
    ''kIdEret'', ''kIdHlt'', ''kIdHvc'', ''kIdIsb'', ''kIdLda'', ''kIdLdab'', ''kIdLdaex'',
    ''kIdLdaexb'', ''kIdLdaexd'', ''kIdLdaexh'', ''kIdLdah'', ''kIdLdm'', ''kIdLdmda'',
    ''kIdLdmdb'', ''kIdLdmib'', ''kIdLdr'', ''kIdLdrb'', ''kIdLdrbt'', ''kIdLdrd'', ''kIdLdrex'',
    ''kIdLdrexb'', ''kIdLdrexd'', ''kIdLdrexh'', ''kIdLdrh'', ''kIdLdrht'', ''kIdLdrsb'',
    ''kIdLdrsbt'', ''kIdLdrsh'', ''kIdLdrsht'', ''kIdLdrt'', ''kIdLsl'', ''kIdLsls'', ''kIdLsr'',
    ''kIdLsrs'', ''kIdMcr'', ''kIdMcr2'', ''kIdMcrr'', ''kIdMcrr2'', ''kIdMla'', ''kIdMlas'',
    ''kIdMls'', ''kIdMov'', ''kIdMovs'', ''kIdMovt'', ''kIdMovw'', ''kIdMrc'', ''kIdMrc2'',
    ''kIdMrrc'', ''kIdMrrc2'', ''kIdMrs'', ''kIdMsr'', ''kIdMul'', ''kIdMuls'', ''kIdMvn'',
    ''kIdMvns'', ''kIdNop'', ''kIdOrr'', ''kIdOrrs'', ''kIdPkhbt'', ''kIdPkhtb'', ''kIdPld'',
    ''kIdPldw'', ''kIdPli'', ''kIdPop'', ''kIdPush'', ''kIdQadd'', ''kIdQadd16'', ''kIdQadd8'',
    ''kIdQasx'', ''kIdQdadd'', ''kIdQdsub'', ''kIdQsax'', ''kIdQsub'', ''kIdQsub16'', ''kIdQsub8'',
    ''kIdRbit'', ''kIdRev'', ''kIdRev16'', ''kIdRevsh'', ''kIdRfe'', ''kIdRfeda'', ''kIdRfedb'',
    ''kIdRfeib'', ''kIdRor'', ''kIdRors'', ''kIdRrx'', ''kIdRrxs'', ''kIdRsb'', ''kIdRsbs'',
    ''kIdRsc'', ''kIdRscs'', ''kIdSadd16'', ''kIdSadd8'', ''kIdSasx'', ''kIdSbc'', ''kIdSbcs'',
    ''kIdSbfx'', ''kIdSdiv'', ''kIdSel'', ''kIdSetend'', ''kIdSev'', ''kIdSevl'', ''kIdSha1c'',
    ''kIdSha1h'', ''kIdSha1m'', ''kIdSha1p'', ''kIdSha1su0'', ''kIdSha1su1'', ''kIdSha256h'',
    ''kIdSha256h2'', ''kIdSha256su0'', ''kIdSha256su1'', ''kIdShadd16'', ''kIdShadd8'',
    ''kIdShasx'', ''kIdShsax'', ''kIdShsub16'', ''kIdShsub8'', ''kIdSmc'', ''kIdSmlabb'',
    ''kIdSmlabt'', ''kIdSmlad'', ''kIdSmladx'', ''kIdSmlal'', ''kIdSmlalbb'', ''kIdSmlalbt'',
    ''kIdSmlald'', ''kIdSmlaldx'', ''kIdSmlals'', ''kIdSmlaltb'', ''kIdSmlaltt'', ''kIdSmlatb'',
    ''kIdSmlatt'', ''kIdSmlawb'', ''kIdSmlawt'', ''kIdSmlsd'', ''kIdSmlsdx'', ''kIdSmlsld'',
    ''kIdSmlsldx'', ''kIdSmmla'', ''kIdSmmlar'', ''kIdSmmls'', ''kIdSmmlsr'', ''kIdSmmul'',
    ''kIdSmmulr'', ''kIdSmuad'', ''kIdSmuadx'', ''kIdSmulbb'', ''kIdSmulbt'', ''kIdSmull'',
    ''kIdSmulls'', ''kIdSmultb'', ''kIdSmultt'', ''kIdSmulwb'', ''kIdSmulwt'', ''kIdSmusd'',
    ''kIdSmusdx'', ''kIdSrs'', ''kIdSrsda'', ''kIdSrsdb'', ''kIdSrsib'', ''kIdSsat'',
    ''kIdSsat16'', ''kIdSsax'', ''kIdSsub16'', ''kIdSsub8'', ''kIdStl'', ''kIdStlb'', ''kIdStlex'',
    ''kIdStlexb'', ''kIdStlexd'', ''kIdStlexh'', ''kIdStlh'', ''kIdStm'', ''kIdStmda'',
    ''kIdStmdb'', ''kIdStmib'', ''kIdStr'', ''kIdStrb'', ''kIdStrbt'', ''kIdStrd'', ''kIdStrex'',
    ''kIdStrexb'', ''kIdStrexd'', ''kIdStrexh'', ''kIdStrh'', ''kIdStrht'', ''kIdStrt'',
    ''kIdSub'', ''kIdSubs'', ''kIdSvc'', ''kIdSxtab'', ''kIdSxtab16'', ''kIdSxtah'', ''kIdSxtb'',
    ''kIdSxtb16'', ''kIdSxth'', ''kIdTeq'', ''kIdTst'', ''kIdUadd16'', ''kIdUadd8'', ''kIdUasx'',
    ''kIdUbfx'', ''kIdUdf'', ''kIdUdiv'', ''kIdUhadd16'', ''kIdUhadd8'', ''kIdUhasx'',
    ''kIdUhsax'', ''kIdUhsub16'', ''kIdUhsub8'', ''kIdUmaal'', ''kIdUmlal'', ''kIdUmlals'',
    ''kIdUmull'', ''kIdUmulls'', ''kIdUqadd16'', ''kIdUqadd8'', ''kIdUqasx'', ''kIdUqsax'',
    ''kIdUqsub16'', ''kIdUqsub8'', ''kIdUsad8'', ''kIdUsada8'', ''kIdUsat'', ''kIdUsat16'',
    ''kIdUsax'', ''kIdUsub16'', ''kIdUsub8'', ''kIdUxtab'', ''kIdUxtab16'', ''kIdUxtah'',
    ''kIdUxtb'', ''kIdUxtb16'', ''kIdUxth'', ''kIdVaba'', ''kIdVabal'', ''kIdVabd'', ''kIdVabdl'',
    ''kIdVabs'', ''kIdVacge'', ''kIdVacgt'', ''kIdVacle'', ''kIdVaclt'', ''kIdVadd'',
    ''kIdVaddhn'', ''kIdVaddl'', ''kIdVaddw'', ''kIdVand'', ''kIdVbic'', ''kIdVbif'', ''kIdVbit'',
    ''kIdVbsl'', ''kIdVcadd'', ''kIdVceq'', ''kIdVcge'', ''kIdVcgt'', ''kIdVcle'', ''kIdVcls'',
    ''kIdVclt'', ''kIdVclz'', ''kIdVcmla'', ''kIdVcmp'', ''kIdVcmpe'', ''kIdVcnt'', ''kIdVcvt'',
    ''kIdVcvta'', ''kIdVcvtb'', ''kIdVcvtm'', ''kIdVcvtn'', ''kIdVcvtp'', ''kIdVcvtr'',
    ''kIdVcvtt'', ''kIdVdiv'', ''kIdVdot'', ''kIdVdup'', ''kIdVeor'', ''kIdVext'', ''kIdVfma'',
    ''kIdVfmab'', ''kIdVfmal'', ''kIdVfmat'', ''kIdVfms'', ''kIdVfmsl'', ''kIdVfnma'',
    ''kIdVfnms'', ''kIdVhadd'', ''kIdVhsub'', ''kIdVins'', ''kIdVjcvt'', ''kIdVld1'', ''kIdVld1r'',
    ''kIdVld2'', ''kIdVld2r'', ''kIdVld3'', ''kIdVld3r'', ''kIdVld4'', ''kIdVld4r'', ''kIdVldr'',
    ''kIdVmax'', ''kIdVmaxnm'', ''kIdVmin'', ''kIdVminnm'', ''kIdVmla'', ''kIdVmlal'', ''kIdVmls'',
    ''kIdVmlsl'', ''kIdVmmla'', ''kIdVmov'', ''kIdVmovl'', ''kIdVmovn'', ''kIdVmovx'', ''kIdVmul'',
    ''kIdVmull'', ''kIdVmvn'', ''kIdVneg'', ''kIdVnmla'', ''kIdVnmls'', ''kIdVnmul'', ''kIdVorn'',
    ''kIdVorr'', ''kIdVpadal'', ''kIdVpadd'', ''kIdVpaddl'', ''kIdVpmax'', ''kIdVpmin'',
    ''kIdVqabs'', ''kIdVqadd'', ''kIdVqdmlal'', ''kIdVqdmlsl'', ''kIdVqdmulh'', ''kIdVqdmull'',
    ''kIdVqmovn'', ''kIdVqmovun'', ''kIdVqneg'', ''kIdVqrdmlah'', ''kIdVqrdmlsh'', ''kIdVqrdmulh'',
    ''kIdVqrshl'', ''kIdVqrshrn'', ''kIdVqrshrun'', ''kIdVqshl'', ''kIdVqshlu'', ''kIdVqshrn'',
    ''kIdVqshrun'', ''kIdVqsub'', ''kIdVraddhn'', ''kIdVrecpe'', ''kIdVrecps'', ''kIdVrev16'',
    ''kIdVrev32'', ''kIdVrev64'', ''kIdVrhadd'', ''kIdVrinta'', ''kIdVrintm'', ''kIdVrintn'',
    ''kIdVrintp'', ''kIdVrintr'', ''kIdVrintx'', ''kIdVrintz'', ''kIdVrshl'', ''kIdVrshr'',
    ''kIdVrshrn'', ''kIdVrsqrte'', ''kIdVrsqrts'', ''kIdVrsra'', ''kIdVrsubhn'', ''kIdVsdot'',
    ''kIdVseleq'', ''kIdVselge'', ''kIdVselgt'', ''kIdVselvs'', ''kIdVshl'', ''kIdVshll'',
    ''kIdVshr'', ''kIdVshrn'', ''kIdVsli'', ''kIdVsmmla'', ''kIdVsqrt'', ''kIdVsra'', ''kIdVsri'',
    ''kIdVst1'', ''kIdVst2'', ''kIdVst3'', ''kIdVst4'', ''kIdVstr'', ''kIdVsub'', ''kIdVsubhn'',
    ''kIdVsubl'', ''kIdVsubw'', ''kIdVsudot'', ''kIdVswp'', ''kIdVtbl'', ''kIdVtbx'', ''kIdVtrn'',
    ''kIdVtst'', ''kIdVudot'', ''kIdVummla'', ''kIdVusdot'', ''kIdVusmmla'', ''kIdVuzp'',
    ''kIdVzip'', ''kIdWfe'', ''kIdWfi'', ''kIdYield''
  ]"

definition kIdNone :: u32 where
  "kIdNone = 0"

definition kIdCount :: u32 where
  "kIdCount = of_nat (length Inst_Id)"

text \<open>
  Modelled from the spec: the type \<^verbatim>\<open>InstId\<close> of the argument is declared in the core
  headers, which are not among the sources; the spec says the check is an unsigned comparison,
  and the enumeration it is compared with is a \<^verbatim>\<open>uint32_t\<close> one, so an \<^verbatim>\<open>InstId\<close> is a
  32-bit unsigned integer.
\<close>

definition isDefinedId :: "u32 \<Rightarrow> bool" where
  "isDefinedId instId = (instId < kIdCount)"

section \<open>The instruction id space\<close>

lemma length_Inst_Id: "length Inst_Id = 447"
  unfolding Inst_Id_def by simp

lemma kIdCount_value: "kIdCount = 447"
  by (simp add: kIdCount_def length_Inst_Id)

text \<open>
  C3. For every instruction id \<open>i\<close> of the a32 namespace, \<open>isDefinedId i\<close> holds exactly when
  \<open>i < _kIdCount\<close> (an unsigned comparison; the count is 447). The sentinel \<open>kIdNone\<close>, which
  is 0, is defined, and the count itself is not.
\<close>

theorem isDefinedId_iff_below_count:
  "isDefinedId i = (i < kIdCount) \<and> isDefinedId i = (unat i < 447)
   \<and> kIdNone = 0 \<and> isDefinedId kIdNone \<and> \<not> isDefinedId kIdCount"
  by (simp add: isDefinedId_def kIdCount_value kIdNone_def word_less_nat_alt)

section \<open>Word indices and bit positions\<close>

text \<open>
  The word width divides the capacity on every platform the program is built for (32 and 64
  bits; any power of two up to 256). Under that condition the 32-bit index arithmetic of the
  accessors is the arithmetic of natural numbers, and every id below \<open>kMaxFeatures\<close> names
  a word inside the array.
\<close>

lemma unat_kBitWordSizeInBits:
  assumes "LENGTH('w::len) dvd 256"
  shows "unat (kBitWordSizeInBits TYPE('w)) = LENGTH('w)"
proof -
  have "LENGTH('w) \<le> 256"
    using assms by (rule dvd_imp_le) simp
  then show ?thesis
    by (simp add: kBitWordSizeInBits_def unat_of_nat)
qed

lemma unat_kNumBitWords:
  assumes "LENGTH('w::len) dvd 256"
  shows "unat (kNumBitWords TYPE('w)) = 256 div LENGTH('w)"
  by (simp add: kNumBitWords_def kMaxFeatures_def unat_div unat_kBitWordSizeInBits [OF assms])

lemma unat_idx:
  assumes "LENGTH('w::len) dvd 256"
  shows "unat (f div kBitWordSizeInBits TYPE('w)) = unat f div LENGTH('w)"
  by (simp add: unat_div unat_kBitWordSizeInBits [OF assms])

lemma unat_bit:
  assumes "LENGTH('w::len) dvd 256"
  shows "unat (f mod kBitWordSizeInBits TYPE('w)) = unat f mod LENGTH('w)"
  by (simp add: unat_mod unat_kBitWordSizeInBits [OF assms])

lemma idx_in_range:
  assumes "LENGTH('w::len) dvd 256" and "f < kMaxFeatures"
  shows "unat f div LENGTH('w) < 256 div LENGTH('w)"
proof -
  have "unat f < 256"
    using assms(2) by (simp add: kMaxFeatures_def word_less_nat_alt)
  moreover obtain k where k: "256 = LENGTH('w) * k"
    using assms(1) by (auto elim: dvdE)
  ultimately have "unat f div LENGTH('w) < k"
    by (metis less_mult_imp_div_less mult.commute)
  moreover have "(LENGTH('w) * k) div LENGTH('w) = k"
    by simp
  then have "256 div LENGTH('w) = k"
    by (simp only: k [symmetric])
  ultimately show ?thesis by simp
qed

lemma test_bit_word: "(drop_bit n (w :: 'w::len word) AND 1 \<noteq> 0) = bit w n"
  by (simp add: and_one_eq bit_iff_odd_drop_bit mod_2_eq_odd)
  

lemma has_eq:
  assumes "LENGTH('w::len) dvd 256" and "wf_Data (d :: 'w Data)" and "f < kMaxFeatures"
  shows "has d f = Some (bit (bits d ! (unat f div LENGTH('w))) (unat f mod LENGTH('w)))"
  using assms idx_in_range [OF assms(1,3)]
  by (simp add: has_def Array_at_def wf_Data_def unat_kNumBitWords unat_idx unat_bit test_bit_word)

lemma add_eq:
  assumes "LENGTH('w::len) dvd 256" and "wf_Data (d :: 'w Data)" and "f < kMaxFeatures"
  shows "add d f = Some (d\<lparr>bits := (bits d)[unat f div LENGTH('w) :=
            set_bit (unat f mod LENGTH('w)) (bits d ! (unat f div LENGTH('w)))]\<rparr>)"
  using assms idx_in_range [OF assms(1,3)]
  by (simp add: add_def Array_at_def wf_Data_def unat_kNumBitWords unat_idx unat_bit set_bit_eq_or)

lemma remove_eq:
  assumes "LENGTH('w::len) dvd 256" and "wf_Data (d :: 'w Data)" and "f < kMaxFeatures"
  shows "remove d f = Some (d\<lparr>bits := (bits d)[unat f div LENGTH('w) :=
            unset_bit (unat f mod LENGTH('w)) (bits d ! (unat f div LENGTH('w)))]\<rparr>)"
  using assms idx_in_range [OF assms(1,3)]
  by (simp add: remove_def Array_at_def wf_Data_def unat_kNumBitWords unat_idx unat_bit unset_bit_eq_and_not)

lemma addIf_eq:
  assumes "LENGTH('w::len) dvd 256" and "wf_Data (d :: 'w Data)" and "f < kMaxFeatures"
  shows "addIf d c f = (if c then add d f else Some d)"
  using assms idx_in_range [OF assms(1,3)]
  by (simp add: addIf_def add_def Array_at_def wf_Data_def unat_kNumBitWords unat_idx unat_bit)

section \<open>Single-id operations on feature data\<close>

lemma wf_Data_init: "wf_Data Data_init"
  by (simp add: wf_Data_def Data_init_def)

lemma wf_Data_update: "wf_Data d \<Longrightarrow> wf_Data (d\<lparr>bits := (bits d)[i := w]\<rparr>)"
  by (simp add: wf_Data_def)

lemma add_wf:
  assumes "LENGTH('w::len) dvd 256" and "wf_Data (d :: 'w Data)" and "f < kMaxFeatures"
  shows "\<exists>d'. add d f = Some d' \<and> wf_Data d'"
  by (simp add: add_eq [OF assms] wf_Data_update [OF assms(2)])

lemma remove_wf:
  assumes "LENGTH('w::len) dvd 256" and "wf_Data (d :: 'w Data)" and "f < kMaxFeatures"
  shows "\<exists>d'. remove d f = Some d' \<and> wf_Data d'"
  by (simp add: remove_eq [OF assms] wf_Data_update [OF assms(2)])

lemma split_id:
  assumes "unat (f :: u32) div n = unat g div n" and "unat f mod n = unat g mod n"
  shows "f = g"
proof -
  have "unat f = unat g"
    using assms by (metis div_mult_mod_eq)
  then show ?thesis by (rule unsigned_word_eqI)
qed

lemma has_Data_init:
  assumes "LENGTH('w::len) dvd 256" and "f < kMaxFeatures"
  shows "has (Data_init :: 'w Data) f = Some False"
proof -
  have "has (Data_init :: 'w Data) f
      = Some (bit (bits (Data_init :: 'w Data) ! (unat f div LENGTH('w))) (unat f mod LENGTH('w)))"
    by (rule has_eq [OF assms(1) wf_Data_init assms(2)])
  also have "bits (Data_init :: 'w Data) ! (unat f div LENGTH('w)) = 0"
    using idx_in_range [OF assms] by (simp add: Data_init_def unat_kNumBitWords [OF assms(1)])
  finally show ?thesis by simp
qed

lemma has_add:
  assumes "LENGTH('w::len) dvd 256" and "wf_Data (d :: 'w Data)"
    and "f < kMaxFeatures" and "g < kMaxFeatures" and "add d f = Some d'"
  shows "has d' g = Some (g = f \<or> has d g = Some True)"
proof -
  let ?L = "LENGTH('w)"
  have d': "d' = d\<lparr>bits := (bits d)[unat f div ?L := set_bit (unat f mod ?L) (bits d ! (unat f div ?L))]\<rparr>"
    using assms(5) by (simp add: add_eq [OF assms(1,2,3)])
  have wf': "wf_Data d'"
    unfolding d' by (rule wf_Data_update [OF assms(2)])
  have len: "unat f div ?L < length (bits d)"
    using idx_in_range [OF assms(1,3)] assms(2)
    by (simp add: wf_Data_def unat_kNumBitWords [OF assms(1)])
  have modlt: "unat f mod ?L < ?L"
    by simp
  have h': "has d' g = Some (bit (bits d' ! (unat g div ?L)) (unat g mod ?L))"
    by (rule has_eq [OF assms(1) wf' assms(4)])
  have h: "has d g = Some (bit (bits d ! (unat g div ?L)) (unat g mod ?L))"
    by (rule has_eq [OF assms(1,2,4)])
  show ?thesis
  proof (cases "unat g div ?L = unat f div ?L")
    case True
    then have "bits d' ! (unat g div ?L) = set_bit (unat f mod ?L) (bits d ! (unat g div ?L))"
      using len by (simp add: d')
    moreover have "g = f \<longleftrightarrow> unat g mod ?L = unat f mod ?L"
      using True split_id [of g ?L f] by auto
    ultimately show ?thesis
      unfolding h' h by (auto simp add: bit_set_bit_iff possible_bit_word bit_imp_le_length)
  next
    case False
    then have "g \<noteq> f" by auto
    moreover have "bits d' ! (unat g div ?L) = bits d ! (unat g div ?L)"
      using False by (simp add: d')
    ultimately show ?thesis
      unfolding h' h by simp
  qed
qed

lemma has_remove:
  assumes "LENGTH('w::len) dvd 256" and "wf_Data (d :: 'w Data)"
    and "f < kMaxFeatures" and "g < kMaxFeatures" and "remove d f = Some d'"
  shows "has d' g = Some (g \<noteq> f \<and> has d g = Some True)"
proof -
  let ?L = "LENGTH('w)"
  have d': "d' = d\<lparr>bits := (bits d)[unat f div ?L := unset_bit (unat f mod ?L) (bits d ! (unat f div ?L))]\<rparr>"
    using assms(5) by (simp add: remove_eq [OF assms(1,2,3)])
  have wf': "wf_Data d'"
    unfolding d' by (rule wf_Data_update [OF assms(2)])
  have len: "unat f div ?L < length (bits d)"
    using idx_in_range [OF assms(1,3)] assms(2)
    by (simp add: wf_Data_def unat_kNumBitWords [OF assms(1)])
  have h': "has d' g = Some (bit (bits d' ! (unat g div ?L)) (unat g mod ?L))"
    by (rule has_eq [OF assms(1) wf' assms(4)])
  have h: "has d g = Some (bit (bits d ! (unat g div ?L)) (unat g mod ?L))"
    by (rule has_eq [OF assms(1,2,4)])
  show ?thesis
  proof (cases "unat g div ?L = unat f div ?L")
    case True
    then have "bits d' ! (unat g div ?L) = unset_bit (unat f mod ?L) (bits d ! (unat g div ?L))"
      using len by (simp add: d')
    moreover have "g = f \<longleftrightarrow> unat g mod ?L = unat f mod ?L"
      using True split_id [of g ?L f] by auto
    ultimately show ?thesis
      unfolding h' h by (auto simp add: bit_unset_bit_iff bit_imp_le_length)
  next
    case False
    then have "g \<noteq> f" by auto
    moreover have "bits d' ! (unat g div ?L) = bits d ! (unat g div ?L)"
      using False by (simp add: d')
    ultimately show ?thesis
      unfolding h' h by simp
  qed
qed

lemma add_present:
  assumes "LENGTH('w::len) dvd 256" and "wf_Data (d :: 'w Data)"
    and "f < kMaxFeatures" and "has d f = Some True"
  shows "add d f = Some d"
proof -
  let ?L = "LENGTH('w)"
  have "bit (bits d ! (unat f div ?L)) (unat f mod ?L)"
    using assms(4) by (simp add: has_eq [OF assms(1,2,3)])
  then have "set_bit (unat f mod ?L) (bits d ! (unat f div ?L)) = bits d ! (unat f div ?L)"
    by (auto intro!: bit_eqI simp add: bit_set_bit_iff)
  then show ?thesis
    by (simp add: add_eq [OF assms(1,2,3)])
qed

lemma remove_absent:
  assumes "LENGTH('w::len) dvd 256" and "wf_Data (d :: 'w Data)"
    and "f < kMaxFeatures" and "has d f = Some False"
  shows "remove d f = Some d"
proof -
  let ?L = "LENGTH('w)"
  have "\<not> bit (bits d ! (unat f div ?L)) (unat f mod ?L)"
    using assms(4) by (simp add: has_eq [OF assms(1,2,3)])
  then have "unset_bit (unat f mod ?L) (bits d ! (unat f div ?L)) = bits d ! (unat f div ?L)"
    by (auto intro!: bit_eqI simp add: bit_unset_bit_iff)
  then show ?thesis
    by (simp add: remove_eq [OF assms(1,2,3)])
qed

lemma has_total:
  assumes "LENGTH('w::len) dvd 256" and "wf_Data (d :: 'w Data)" and "g < kMaxFeatures"
  shows "Some (has d g = Some True) = has d g"
  by (simp add: has_eq [OF assms])

text \<open>Evaluation of the constants and of concrete feature data at the 64-bit word width.\<close>

lemma width_64: "LENGTH(64) dvd (256 :: nat)"
  by simp

lemma kNumBitWords_64: "unat (kNumBitWords TYPE(64)) = 4"
  by (simp add: kNumBitWords_def kMaxFeatures_def kBitWordSizeInBits_def)

lemma Data_init_64: "(Data_init :: 64 Data) = \<lparr>bits = [0, 0, 0, 0]\<rparr>"
  by (simp add: Data_init_def kNumBitWords_64 numeral_eq_Suc)

lemma wf_Data_64: "wf_Data (\<lparr>bits = [a, b, c, e]\<rparr> :: 64 Data)"
  by (simp add: wf_Data_def kNumBitWords_64)

lemmas eval_64 = has_def add_def addIf_def remove_def Array_at_def kMaxFeatures_def
  kBitWordSizeInBits_def X86_kNone_def X86_kAVX_def X86_kAVX2_def

text \<open>
  C1. For every feature id \<open>f < 256\<close>: a fresh (zero-initialised) feature set does not have
  \<open>f\<close>; after \<open>add f\<close> it has \<open>f\<close>, and after a following \<open>remove f\<close> it does not. On any
  feature set, \<open>add\<close> and \<open>remove\<close> succeed and are idempotent: a second \<open>add f\<close> (or
  \<open>remove f\<close>) changes nothing, adding an id that is already set leaves the set unchanged, and
  so does removing an id that is already clear.
\<close>

theorem fresh_add_remove_has:
  fixes d :: "('w::len) Data"
  assumes "LENGTH('w) dvd 256" and "wf_Data d" and "f < kMaxFeatures"
  shows "has (Data_init :: 'w Data) f = Some False
    \<and> (\<exists>d1 d2. add (Data_init :: 'w Data) f = Some d1 \<and> has d1 f = Some True
           \<and> remove d1 f = Some d2 \<and> has d2 f = Some False)
    \<and> (\<exists>d1. add d f = Some d1 \<and> has d1 f = Some True \<and> add d1 f = Some d1)
    \<and> (\<exists>d1. remove d f = Some d1 \<and> has d1 f = Some False \<and> remove d1 f = Some d1)
    \<and> (has d f = Some True \<longrightarrow> add d f = Some d)
    \<and> (has d f = Some False \<longrightarrow> remove d f = Some d)"
proof -
  note w = assms(1) and lt = assms(3)
  have after_add: "\<exists>d1. add e f = Some d1 \<and> wf_Data d1 \<and> has d1 f = Some True \<and> add d1 f = Some d1"
    if e: "wf_Data e" for e :: "'w Data"
  proof -
    obtain d1 where d1: "add e f = Some d1" "wf_Data d1"
      using add_wf [OF w e lt] by blast
    have "has d1 f = Some True"
      using has_add [OF w e lt lt d1(1)] by simp
    then show ?thesis
      using d1 add_present [OF w d1(2) lt] by simp
  qed
  have after_remove: "\<exists>d1. remove e f = Some d1 \<and> wf_Data d1 \<and> has d1 f = Some False \<and> remove d1 f = Some d1"
    if e: "wf_Data e" for e :: "'w Data"
  proof -
    obtain d1 where d1: "remove e f = Some d1" "wf_Data d1"
      using remove_wf [OF w e lt] by blast
    have "has d1 f = Some False"
      using has_remove [OF w e lt lt d1(1)] by simp
    then show ?thesis
      using d1 remove_absent [OF w d1(2) lt] by simp
  qed
  have fresh: "has (Data_init :: 'w Data) f = Some False"
    by (rule has_Data_init [OF w lt])
  have cycle: "\<exists>d1 d2. add (Data_init :: 'w Data) f = Some d1 \<and> has d1 f = Some True
           \<and> remove d1 f = Some d2 \<and> has d2 f = Some False"
  proof -
    obtain d1 where d1: "add (Data_init :: 'w Data) f = Some d1" "wf_Data d1" "has d1 f = Some True"
      using after_add [OF wf_Data_init] by blast
    obtain d2 where "remove d1 f = Some d2" "has d2 f = Some False"
      using after_remove [OF d1(2)] by blast
    with d1 show ?thesis by blast
  qed
  have idem_add: "\<exists>d1. add d f = Some d1 \<and> has d1 f = Some True \<and> add d1 f = Some d1"
    using after_add [OF assms(2)] by blast
  have idem_remove: "\<exists>d1. remove d f = Some d1 \<and> has d1 f = Some False \<and> remove d1 f = Some d1"
    using after_remove [OF assms(2)] by blast
  have noop_add: "has d f = Some True \<longrightarrow> add d f = Some d"
    using add_present [OF w assms(2) lt] by blast
  have noop_remove: "has d f = Some False \<longrightarrow> remove d f = Some d"
    using remove_absent [OF w assms(2) lt] by blast
  from fresh cycle idem_add idem_remove noop_add noop_remove show ?thesis
    by (intro conjI)
qed

theorem fresh_add_remove_has_witness:
  "LENGTH(64) dvd (256 :: nat)
   \<and> wf_Data (\<lparr>bits = [0x6000, 0, 0, 0]\<rparr> :: 64 Data)
   \<and> X86_kAVX < kMaxFeatures
   \<and> has (Data_init :: 64 Data) X86_kAVX = Some False
   \<and> has (\<lparr>bits = [0x6000, 0, 0, 0]\<rparr> :: 64 Data) X86_kAVX = Some True
   \<and> add (\<lparr>bits = [0x6000, 0, 0, 0]\<rparr> :: 64 Data) X86_kAVX = Some \<lparr>bits = [0x6000, 0, 0, 0]\<rparr>
   \<and> remove (\<lparr>bits = [0x6000, 0, 0, 0]\<rparr> :: 64 Data) X86_kAVX = Some \<lparr>bits = [0x4000, 0, 0, 0]\<rparr>
   \<and> has (\<lparr>bits = [0x4000, 0, 0, 0]\<rparr> :: 64 Data) X86_kAVX = Some False
   \<and> remove (\<lparr>bits = [0x4000, 0, 0, 0]\<rparr> :: 64 Data) X86_kAVX = Some \<lparr>bits = [0x4000, 0, 0, 0]\<rparr>"
proof -
  let ?d = "\<lparr>bits = [0x6000, 0, 0, 0]\<rparr> :: 64 Data"
  let ?e = "\<lparr>bits = [0x4000, 0, 0, 0]\<rparr> :: 64 Data"
  have lt: "X86_kAVX < kMaxFeatures"
    by (simp add: eval_64)
  have set: "has ?d X86_kAVX = Some True"
    by (simp add: eval_64)
  have clear: "has ?e X86_kAVX = Some False"
    by (simp add: eval_64)
  have rem: "remove ?d X86_kAVX = Some ?e"
    by (simp add: eval_64)
  have "add ?d X86_kAVX = Some ?d"
    using fresh_add_remove_has [OF width_64 wf_Data_64 lt, of "0x6000" 0 0 0] set by blast
  moreover have "remove ?e X86_kAVX = Some ?e"
    using fresh_add_remove_has [OF width_64 wf_Data_64 lt, of "0x4000" 0 0 0] clear by blast
  moreover have "has (Data_init :: 64 Data) X86_kAVX = Some False"
    using fresh_add_remove_has [OF width_64 wf_Data_64 lt, of 0 0 0 0] by blast
  ultimately show ?thesis
    using lt set clear rem wf_Data_64 width_64 by blast
qed

text \<open>
  C10. Bit independence: for two distinct feature ids \<open>f\<close> and \<open>g\<close>, both below 256, none of
  \<open>add f\<close>, \<open>remove f\<close> and \<open>addIf c f\<close> changes the answer of \<open>has g\<close>.
\<close>

theorem mutation_touches_one_bit:
  fixes d :: "('w::len) Data"
  assumes "LENGTH('w) dvd 256" and "wf_Data d"
    and "f < kMaxFeatures" and "g < kMaxFeatures" and "f \<noteq> g"
  shows "(\<exists>d'. add d f = Some d' \<and> has d' g = has d g)
       \<and> (\<exists>d'. remove d f = Some d' \<and> has d' g = has d g)
       \<and> (\<exists>d'. addIf d c f = Some d' \<and> has d' g = has d g)"
proof -
  note w = assms(1) and wf = assms(2) and ltf = assms(3) and ltg = assms(4)
  have same: "Some (has d g = Some True) = has d g"
    by (rule has_total [OF w wf ltg])
  obtain d1 where d1: "add d f = Some d1"
    using add_wf [OF w wf ltf] by blast
  have a: "has d1 g = has d g"
    using has_add [OF w wf ltf ltg d1] assms(5) same by simp
  obtain d2 where d2: "remove d f = Some d2"
    using remove_wf [OF w wf ltf] by blast
  have r: "has d2 g = has d g"
    using has_remove [OF w wf ltf ltg d2] assms(5) same by simp
  have "\<exists>d'. addIf d c f = Some d' \<and> has d' g = has d g"
    using d1 a by (simp add: addIf_eq [OF w wf ltf])
  with d1 a d2 r show ?thesis by blast
qed

theorem mutation_touches_one_bit_witness:
  "LENGTH(64) dvd (256 :: nat)
   \<and> wf_Data (\<lparr>bits = [0x6000, 0, 0, 0]\<rparr> :: 64 Data)
   \<and> X86_kAVX < kMaxFeatures \<and> X86_kAVX2 < kMaxFeatures \<and> X86_kAVX \<noteq> X86_kAVX2
   \<and> remove (\<lparr>bits = [0x6000, 0, 0, 0]\<rparr> :: 64 Data) X86_kAVX = Some \<lparr>bits = [0x4000, 0, 0, 0]\<rparr>
   \<and> has (\<lparr>bits = [0x4000, 0, 0, 0]\<rparr> :: 64 Data) X86_kAVX2
       = has (\<lparr>bits = [0x6000, 0, 0, 0]\<rparr> :: 64 Data) X86_kAVX2
   \<and> has (\<lparr>bits = [0x6000, 0, 0, 0]\<rparr> :: 64 Data) X86_kAVX2 = Some True"
proof -
  let ?d = "\<lparr>bits = [0x6000, 0, 0, 0]\<rparr> :: 64 Data"
  let ?e = "\<lparr>bits = [0x4000, 0, 0, 0]\<rparr> :: 64 Data"
  have lt: "X86_kAVX < kMaxFeatures" and lt2: "X86_kAVX2 < kMaxFeatures"
    and ne: "X86_kAVX \<noteq> X86_kAVX2"
    by (simp_all add: eval_64)
  have rem: "remove ?d X86_kAVX = Some ?e"
    by (simp add: eval_64)
  have set: "has ?d X86_kAVX2 = Some True"
    by (simp add: eval_64)
  have "\<exists>d'. remove ?d X86_kAVX = Some d' \<and> has d' X86_kAVX2 = has ?d X86_kAVX2"
    using mutation_touches_one_bit [OF width_64 wf_Data_64 lt lt2 ne, of "0x6000" 0 0 0] by blast
  then have "has ?e X86_kAVX2 = has ?d X86_kAVX2"
    using rem by simp
  then show ?thesis
    using lt lt2 ne rem set wf_Data_64 width_64 by blast
qed

section \<open>Queries over several ids\<close>

lemma of_bool_or_ne0: "(((of_bool a :: u32) OR of_bool b) \<noteq> 0) = (a \<or> b)"
  by (cases a; cases b) simp_all

lemma hasAny_eq:
  fixes d :: "('w::len) Data"
  assumes "LENGTH('w) dvd 256" and "wf_Data d"
  shows "\<forall>g \<in> set (f # fs). g < kMaxFeatures \<Longrightarrow>
         hasAny d f fs = Some (\<exists>g \<in> set (f # fs). has d g = Some True)"
proof (induction fs arbitrary: f)
  case Nil
  then show ?case
    using has_total [OF assms, of f] by simp
next
  case (Cons g gs)
  have f: "f < kMaxFeatures" and rest: "\<forall>h \<in> set (g # gs). h < kMaxFeatures"
    using Cons.prems by simp_all
  have hf: "has d f = Some (has d f = Some True)"
    using has_total [OF assms f] by simp
  show ?case
    using Cons.IH [OF rest] hf
    by (auto simp add: of_bool_or_ne0 split: option.splits)
qed

text \<open>
  C5. For all feature ids \<open>a\<close> and \<open>b\<close> below 256, \<open>hasAny(a, b)\<close> returns exactly
  \<open>has(a) || has(b)\<close>; for any non-empty list of ids below 256, \<open>hasAny\<close> is the logical OR of
  the single \<open>has\<close> tests.
\<close>

theorem hasAny_is_disjunction:
  fixes d :: "('w::len) Data"
  assumes "LENGTH('w) dvd 256" and "wf_Data d"
    and "a < kMaxFeatures" and "b < kMaxFeatures" and "\<forall>g \<in> set (f # fs). g < kMaxFeatures"
  shows "hasAny d a [b] = Some (has d a = Some True \<or> has d b = Some True)
       \<and> (\<exists>x y. has d a = Some x \<and> has d b = Some y \<and> hasAny d a [b] = Some (x \<or> y))
       \<and> hasAny d f fs = Some (\<exists>g \<in> set (f # fs). has d g = Some True)"
proof -
  have two: "hasAny d a [b] = Some (has d a = Some True \<or> has d b = Some True)"
    using hasAny_eq [OF assms(1,2), of a "[b]"] assms(3,4) by simp
  have "has d a = Some (has d a = Some True)" and "has d b = Some (has d b = Some True)"
    using has_total [OF assms(1,2,3)] has_total [OF assms(1,2,4)] by simp_all
  with two have "\<exists>x y. has d a = Some x \<and> has d b = Some y \<and> hasAny d a [b] = Some (x \<or> y)"
    by blast
  with two hasAny_eq [OF assms(1,2,5)] show ?thesis
    by blast
qed

theorem hasAny_is_disjunction_witness:
  "LENGTH(64) dvd (256 :: nat)
   \<and> wf_Data (\<lparr>bits = [0x6000, 0, 0, 0]\<rparr> :: 64 Data)
   \<and> X86_kAVX < kMaxFeatures \<and> (70 :: u32) < kMaxFeatures
   \<and> has (\<lparr>bits = [0x6000, 0, 0, 0]\<rparr> :: 64 Data) X86_kAVX = Some True
   \<and> has (\<lparr>bits = [0x6000, 0, 0, 0]\<rparr> :: 64 Data) 70 = Some False
   \<and> hasAny (\<lparr>bits = [0x6000, 0, 0, 0]\<rparr> :: 64 Data) X86_kAVX [70] = Some True
   \<and> hasAny (\<lparr>bits = [0x6000, 0, 0, 0]\<rparr> :: 64 Data) 70 [70, 70] = Some False"
proof -
  let ?d = "\<lparr>bits = [0x6000, 0, 0, 0]\<rparr> :: 64 Data"
  have lt: "X86_kAVX < kMaxFeatures" and lt2: "(70 :: u32) < kMaxFeatures"
    by (simp_all add: eval_64)
  have all: "\<forall>g \<in> set [70, 70, 70 :: u32]. g < kMaxFeatures"
    using lt2 by simp
  have avx: "has ?d X86_kAVX = Some True" and no70: "has ?d 70 = Some False"
    by (simp_all add: eval_64)
  have "hasAny ?d X86_kAVX [70] = Some (has ?d X86_kAVX = Some True \<or> has ?d 70 = Some True)"
    using hasAny_is_disjunction [OF width_64 wf_Data_64 lt lt2 all, of "0x6000" 0 0 0] by blast
  then have two: "hasAny ?d X86_kAVX [70] = Some True"
    using avx by simp
  have "hasAny ?d 70 [70, 70] = Some (\<exists>g \<in> set [70, 70, 70]. has ?d g = Some True)"
    using hasAny_is_disjunction [OF width_64 wf_Data_64 lt lt2 all, of "0x6000" 0 0 0] by blast
  then have many: "hasAny ?d 70 [70, 70] = Some False"
    using no70 by simp
  show ?thesis
    using width_64 wf_Data_64 lt lt2 avx no70 two many by blast
qed

section \<open>The subset test\<close>

lemma and_of_bool_u32:
  "(r :: u32) = 0 \<or> r = 1 \<Longrightarrow> r AND of_bool p = of_bool (r = 1 \<and> p)"
  by (cases p) auto

lemma range_split:
  assumes "i < (n :: nat)"
  shows "(\<forall>j. i \<le> j \<and> j < n \<longrightarrow> P j) \<longleftrightarrow> P i \<and> (\<forall>j. Suc i \<le> j \<and> j < n \<longrightarrow> P j)"
proof
  assume a: "\<forall>j. i \<le> j \<and> j < n \<longrightarrow> P j"
  show "P i \<and> (\<forall>j. Suc i \<le> j \<and> j < n \<longrightarrow> P j)"
    using a assms by auto
next
  assume b: "P i \<and> (\<forall>j. Suc i \<le> j \<and> j < n \<longrightarrow> P j)"
  show "\<forall>j. i \<le> j \<and> j < n \<longrightarrow> P j"
  proof (intro allI impI)
    fix j assume "i \<le> j \<and> j < n"
    then consider "j = i" | "Suc i \<le> j \<and> j < n" by linarith
    then show "P j" using b by cases auto
  qed
qed


lemma hasAll_loop_eq:
  fixes d other :: "('w::len) Data"
  shows "LENGTH('w) dvd 256 \<Longrightarrow> wf_Data d \<Longrightarrow> wf_Data other \<Longrightarrow>
         unat i \<le> unat (kNumBitWords TYPE('w)) \<Longrightarrow> r = 0 \<or> r = 1 \<Longrightarrow>
         hasAll_loop d other i r =
           Some (of_bool (r = 1 \<and> (\<forall>j. unat i \<le> j \<and> j < unat (kNumBitWords TYPE('w)) \<longrightarrow>
                   (bits d ! j AND bits other ! j) = bits other ! j)))"
proof (induction d other i r rule: hasAll_loop.induct)
  case (1 d other i r)
  let ?N = "unat (kNumBitWords TYPE('w))"
  let ?P = "\<lambda>j. (bits d ! j AND bits other ! j) = bits other ! j"
  show ?case
  proof (cases "i < kNumBitWords TYPE('w)")
    case False
    then have "unat i = ?N"
      using "1.prems"(4) by (simp add: word_less_nat_alt)
    then have all: "\<forall>j. unat i \<le> j \<and> j < ?N \<longrightarrow> ?P j"
      by auto
    have "hasAll_loop d other i r = Some r"
      using False by (subst hasAll_loop.simps) simp
    moreover have "r = of_bool (r = 1)"
      using "1.prems"(5) by auto
    ultimately show ?thesis
      using all by simp
  next
    case True
    then have lt: "unat i < ?N"
      by (simp add: word_less_nat_alt)
    have suc: "unat (i + 1) = Suc (unat i)"
      using True by unat_arith
    have a: "Array_at (bits d) i = Some (bits d ! unat i)"
      and b: "Array_at (bits other) i = Some (bits other ! unat i)"
      using lt "1.prems"(2,3) by (simp_all add: Array_at_def wf_Data_def)
    define r' where "r' = r AND of_bool (?P (unat i))"
    have r': "r' = of_bool (r = 1 \<and> ?P (unat i))"
      unfolding r'_def by (rule and_of_bool_u32 [OF "1.prems"(5)])
    have r01: "r' = 0 \<or> r' = 1"
      unfolding r' by (cases "r = 1 \<and> ?P (unat i)") simp_all
    have r1: "r' = 1 \<longleftrightarrow> r = 1 \<and> ?P (unat i)"
      unfolding r' by simp
    have step: "hasAll_loop d other i r = hasAll_loop d other (i + 1) r'"
      unfolding r'_def using True a b by (subst hasAll_loop.simps) simp
    have le: "unat (i + 1) \<le> ?N"
      using lt suc by simp
    have "hasAll_loop d other (i + 1) r' =
        Some (of_bool (r' = 1 \<and> (\<forall>j. unat (i + 1) \<le> j \<and> j < ?N \<longrightarrow> ?P j)))"
      using "1.IH" [OF True a b "1.prems"(1,2,3) le] r01 unfolding r'_def by blast
    then have "hasAll_loop d other i r =
        Some (of_bool ((r = 1 \<and> ?P (unat i)) \<and> (\<forall>j. Suc (unat i) \<le> j \<and> j < ?N \<longrightarrow> ?P j)))"
      unfolding step suc r1 .
    moreover have "(r = 1 \<and> ?P (unat i)) \<and> (\<forall>j. Suc (unat i) \<le> j \<and> j < ?N \<longrightarrow> ?P j)
        \<longleftrightarrow> r = 1 \<and> (\<forall>j. unat i \<le> j \<and> j < ?N \<longrightarrow> ?P j)"
      unfolding range_split [OF lt, of ?P] by blast
    ultimately show ?thesis
      by (simp only:)
  qed
qed

lemma hasAll_eq:
  fixes d other :: "('w::len) Data"
  assumes "LENGTH('w) dvd 256" and "wf_Data d" and "wf_Data other"
  shows "hasAll d other =
     Some (\<forall>w < unat (kNumBitWords TYPE('w)). (bits d ! w AND bits other ! w) = bits other ! w)"
  by (simp add: hasAll_def hasAll_loop_eq [OF assms])


lemma aggregate_Or_zero:
  "Array_aggregate_Or xs (v :: 'w::len word) = 0 \<longleftrightarrow> v = 0 \<and> (\<forall>x \<in> set xs. x = 0)"
  unfolding Array_aggregate_Or_def
  by (induction xs arbitrary: v) (auto simp add: or_eq_0_iff)

lemma empty_iff: "empty d \<longleftrightarrow> (\<forall>x \<in> set (bits d). x = 0)"
  by (simp add: empty_def aggregate_Or_zero)

text \<open>
  C2. For any two feature sets, \<open>hasAll other\<close> returns true exactly when, at every storage
  word index \<open>w\<close>, \<open>(self[w] & other[w]) == other[w]\<close>: a subset test, not equality. In
  particular it is true whenever \<open>other\<close> is empty (as \<open>empty\<close> tests it, and for the
  zero-initialised set), and \<open>hasAll\<close> of a set with itself is true.
\<close>

theorem hasAll_is_subset_test:
  fixes d other :: "('w::len) Data"
  assumes "LENGTH('w) dvd 256" and "wf_Data d" and "wf_Data other"
  shows "hasAll d other =
           Some (\<forall>w < unat (kNumBitWords TYPE('w)). (bits d ! w AND bits other ! w) = bits other ! w)
       \<and> (empty other \<longrightarrow> hasAll d other = Some True)
       \<and> hasAll d (Data_init :: 'w Data) = Some True
       \<and> hasAll d d = Some True"
proof -
  have main: "hasAll d other =
      Some (\<forall>w < unat (kNumBitWords TYPE('w)). (bits d ! w AND bits other ! w) = bits other ! w)"
    by (rule hasAll_eq [OF assms])
  have e: "hasAll d other = Some True" if emp: "empty other"
  proof -
    have "bits other ! w = 0" if "w < unat (kNumBitWords TYPE('w))" for w
      using that emp assms(3) by (simp add: empty_iff wf_Data_def)
    then show ?thesis
      unfolding main by simp
  qed
  have i: "hasAll d (Data_init :: 'w Data) = Some True"
  proof -
    have "hasAll d (Data_init :: 'w Data) =
        Some (\<forall>w < unat (kNumBitWords TYPE('w)).
                (bits d ! w AND bits (Data_init :: 'w Data) ! w) = bits (Data_init :: 'w Data) ! w)"
      by (rule hasAll_eq [OF assms(1,2) wf_Data_init])
    then show ?thesis
      by (simp add: Data_init_def)
  qed
  have s: "hasAll d d = Some True"
    by (simp add: hasAll_eq [OF assms(1,2,2)])
  from main e i s show ?thesis
    by blast
qed


theorem hasAll_is_subset_test_witness:
  "LENGTH(64) dvd (256 :: nat)
   \<and> wf_Data (\<lparr>bits = [0x6000, 0, 1, 0]\<rparr> :: 64 Data)
   \<and> wf_Data (\<lparr>bits = [0x4000, 0, 0, 0]\<rparr> :: 64 Data)
   \<and> hasAll (\<lparr>bits = [0x6000, 0, 1, 0]\<rparr> :: 64 Data) \<lparr>bits = [0x4000, 0, 0, 0]\<rparr> = Some True
   \<and> hasAll (\<lparr>bits = [0x4000, 0, 0, 0]\<rparr> :: 64 Data) \<lparr>bits = [0x6000, 0, 1, 0]\<rparr> = Some False
   \<and> empty (\<lparr>bits = [0, 0, 0, 0]\<rparr> :: 64 Data)
   \<and> hasAll (\<lparr>bits = [0x6000, 0, 1, 0]\<rparr> :: 64 Data) \<lparr>bits = [0, 0, 0, 0]\<rparr> = Some True
   \<and> hasAll (\<lparr>bits = [0x6000, 0, 1, 0]\<rparr> :: 64 Data) \<lparr>bits = [0x6000, 0, 1, 0]\<rparr> = Some True"
proof -
  let ?d = "\<lparr>bits = [0x6000, 0, 1, 0]\<rparr> :: 64 Data"
  let ?o = "\<lparr>bits = [0x4000, 0, 0, 0]\<rparr> :: 64 Data"
  let ?z = "\<lparr>bits = [0, 0, 0, 0]\<rparr> :: 64 Data"
  have four: "(\<forall>w < unat (kNumBitWords TYPE(64)). P w) \<longleftrightarrow> P 0 \<and> P 1 \<and> P 2 \<and> P 3" for P
    by (auto simp add: kNumBitWords_64 numeral_eq_Suc less_Suc_eq)
  have sub: "hasAll ?d ?o = Some True"
    using hasAll_is_subset_test [OF width_64 wf_Data_64 wf_Data_64, of "0x6000" 0 1 0 "0x4000" 0 0 0]
    by (simp add: four numeral_eq_Suc)
  have notsub: "hasAll ?o ?d = Some False"
    using hasAll_is_subset_test [OF width_64 wf_Data_64 wf_Data_64, of "0x4000" 0 0 0 "0x6000" 0 1 0]
    by (simp add: four numeral_eq_Suc)
  have emp: "empty ?z"
    by (simp add: empty_def Array_aggregate_Or_def)
  have zero: "hasAll ?d ?z = Some True"
    using hasAll_is_subset_test [OF width_64 wf_Data_64 wf_Data_64, of "0x6000" 0 1 0 0 0 0 0] emp
    by blast
  have self: "hasAll ?d ?d = Some True"
    using hasAll_is_subset_test [OF width_64 wf_Data_64 wf_Data_64, of "0x6000" 0 1 0 0 0 0 0]
    by blast
  show ?thesis
    using width_64 wf_Data_64 sub notsub emp zero self by blast
qed

section \<open>Mutations with several ids\<close>

lemma add_ids_has:
  fixes d :: "('w::len) Data"
  assumes w: "LENGTH('w) dvd 256"
  shows "wf_Data d \<Longrightarrow> \<forall>g \<in> set (f # fs). g < kMaxFeatures \<Longrightarrow>
     \<exists>d'. add_ids d f fs = Some d' \<and> wf_Data d' \<and>
          (\<forall>g. g < kMaxFeatures \<longrightarrow> has d' g = Some (g \<in> set (f # fs) \<or> has d g = Some True))"
proof (induction fs arbitrary: d f)
  case Nil
  then have f: "f < kMaxFeatures" by simp
  obtain d1 where d1: "add d f = Some d1" "wf_Data d1"
    using add_wf [OF w Nil.prems(1) f] by blast
  have "has d1 g = Some (g \<in> set [f] \<or> has d g = Some True)" if "g < kMaxFeatures" for g
    using has_add [OF w Nil.prems(1) f that d1(1)] by simp
  with d1 show ?case by simp
next
  case (Cons h hs)
  then have f: "f < kMaxFeatures" and rest: "\<forall>g \<in> set (h # hs). g < kMaxFeatures"
    by simp_all
  obtain d1 where d1: "add d f = Some d1" "wf_Data d1"
    using add_wf [OF w Cons.prems(1) f] by blast
  obtain d2 where d2: "add_ids d1 h hs = Some d2" "wf_Data d2"
    and h2: "\<forall>g. g < kMaxFeatures \<longrightarrow> has d2 g = Some (g \<in> set (h # hs) \<or> has d1 g = Some True)"
    using Cons.IH [OF d1(2) rest] by blast
  have "has d2 g = Some (g \<in> set (f # h # hs) \<or> has d g = Some True)" if g: "g < kMaxFeatures" for g
  proof -
    have "has d1 g = Some (g = f \<or> has d g = Some True)"
      by (rule has_add [OF w Cons.prems(1) f g d1(1)])
    moreover have "has d2 g = Some (g \<in> set (h # hs) \<or> has d1 g = Some True)"
      using h2 g by blast
    ultimately show ?thesis by auto
  qed
  moreover have "add_ids d f (h # hs) = Some d2"
    using d1(1) d2(1) by simp
  ultimately show ?case
    using d2(2) by blast
qed

lemma remove_ids_has:
  fixes d :: "('w::len) Data"
  assumes w: "LENGTH('w) dvd 256"
  shows "wf_Data d \<Longrightarrow> \<forall>g \<in> set (f # fs). g < kMaxFeatures \<Longrightarrow>
     \<exists>d'. remove_ids d f fs = Some d' \<and> wf_Data d' \<and>
          (\<forall>g. g < kMaxFeatures \<longrightarrow> has d' g = Some (g \<notin> set (f # fs) \<and> has d g = Some True))"
proof (induction fs arbitrary: d f)
  case Nil
  then have f: "f < kMaxFeatures" by simp
  obtain d1 where d1: "remove d f = Some d1" "wf_Data d1"
    using remove_wf [OF w Nil.prems(1) f] by blast
  have "has d1 g = Some (g \<notin> set [f] \<and> has d g = Some True)" if "g < kMaxFeatures" for g
    using has_remove [OF w Nil.prems(1) f that d1(1)] by simp
  with d1 show ?case by simp
next
  case (Cons h hs)
  then have f: "f < kMaxFeatures" and rest: "\<forall>g \<in> set (h # hs). g < kMaxFeatures"
    by simp_all
  obtain d1 where d1: "remove d f = Some d1" "wf_Data d1"
    using remove_wf [OF w Cons.prems(1) f] by blast
  obtain d2 where d2: "remove_ids d1 h hs = Some d2" "wf_Data d2"
    and h2: "\<forall>g. g < kMaxFeatures \<longrightarrow> has d2 g = Some (g \<notin> set (h # hs) \<and> has d1 g = Some True)"
    using Cons.IH [OF d1(2) rest] by blast
  have "has d2 g = Some (g \<notin> set (f # h # hs) \<and> has d g = Some True)" if g: "g < kMaxFeatures" for g
  proof -
    have "has d1 g = Some (g \<noteq> f \<and> has d g = Some True)"
      by (rule has_remove [OF w Cons.prems(1) f g d1(1)])
    moreover have "has d2 g = Some (g \<notin> set (h # hs) \<and> has d1 g = Some True)"
      using h2 g by blast
    ultimately show ?thesis by auto
  qed
  moreover have "remove_ids d f (h # hs) = Some d2"
    using d1(1) d2(1) by simp
  ultimately show ?case
    using d2(2) by blast
qed

lemma addIf_ids_eq:
  fixes d :: "('w::len) Data"
  assumes w: "LENGTH('w) dvd 256"
  shows "wf_Data d \<Longrightarrow> \<forall>g \<in> set (f # fs). g < kMaxFeatures \<Longrightarrow>
     addIf_ids d c f fs = (if c then add_ids d f fs else Some d)"
proof (induction fs arbitrary: d f)
  case Nil
  then show ?case
    by (simp add: addIf_eq [OF w])
next
  case (Cons h hs)
  then have f: "f < kMaxFeatures" and rest: "\<forall>g \<in> set (h # hs). g < kMaxFeatures"
    by simp_all
  show ?case
  proof (cases c)
    case False
    then show ?thesis
      using Cons.IH [OF Cons.prems(1) rest] by (simp add: addIf_eq [OF w Cons.prems(1) f])
  next
    case True
    obtain d1 where d1: "add d f = Some d1" "wf_Data d1"
      using add_wf [OF w Cons.prems(1) f] by blast
    show ?thesis
      using True d1 Cons.IH [OF d1(2) rest] by (simp add: addIf_eq [OF w Cons.prems(1) f])
  qed
qed

text \<open>
  C4. For every feature set and every list of feature ids below 256, \<open>addIf(false, ids...)\<close>
  returns the set as it was, whatever the number of ids; with a true condition \<open>addIf\<close> sets
  all the given bits (and no other: every id has afterwards what it had before, or is one of
  the ids given).
\<close>

theorem addIf_false_is_noop:
  fixes d :: "('w::len) Data"
  assumes "LENGTH('w) dvd 256" and "wf_Data d" and "\<forall>g \<in> set (f # fs). g < kMaxFeatures"
  shows "addIf_ids d False f fs = Some d
       \<and> (\<exists>d'. addIf_ids d True f fs = Some d'
              \<and> (\<forall>g \<in> set (f # fs). has d' g = Some True)
              \<and> (\<forall>g. g < kMaxFeatures \<longrightarrow>
                    has d' g = Some (g \<in> set (f # fs) \<or> has d g = Some True)))"
proof -
  have no: "addIf_ids d False f fs = Some d"
    by (simp add: addIf_ids_eq [OF assms])
  obtain d' where d': "add_ids d f fs = Some d'"
    and h: "\<forall>g. g < kMaxFeatures \<longrightarrow> has d' g = Some (g \<in> set (f # fs) \<or> has d g = Some True)"
    using add_ids_has [OF assms] by blast
  have yes: "addIf_ids d True f fs = Some d'"
    using d' by (simp add: addIf_ids_eq [OF assms])
  have "\<forall>g \<in> set (f # fs). has d' g = Some True"
    using h assms(3) by simp
  with no yes h show ?thesis
    by blast
qed

theorem addIf_false_is_noop_witness:
  "LENGTH(64) dvd (256 :: nat)
   \<and> wf_Data (\<lparr>bits = [0x6000, 0, 0, 0]\<rparr> :: 64 Data)
   \<and> (1 :: u32) < kMaxFeatures \<and> (70 :: u32) < kMaxFeatures \<and> X86_kAVX < kMaxFeatures
   \<and> addIf_ids (\<lparr>bits = [0x6000, 0, 0, 0]\<rparr> :: 64 Data) False 1 [70, X86_kAVX]
       = Some \<lparr>bits = [0x6000, 0, 0, 0]\<rparr>
   \<and> addIf_ids (\<lparr>bits = [0x6000, 0, 0, 0]\<rparr> :: 64 Data) True 1 [70, X86_kAVX]
       = Some \<lparr>bits = [0x6002, 0x40, 0, 0]\<rparr>
   \<and> has (\<lparr>bits = [0x6002, 0x40, 0, 0]\<rparr> :: 64 Data) 70 = Some True"
proof -
  let ?d = "\<lparr>bits = [0x6000, 0, 0, 0]\<rparr> :: 64 Data"
  let ?e = "\<lparr>bits = [0x6002, 0x40, 0, 0]\<rparr> :: 64 Data"
  have lt: "(1 :: u32) < kMaxFeatures" "(70 :: u32) < kMaxFeatures" "X86_kAVX < kMaxFeatures"
    by (simp_all add: eval_64)
  then have all: "\<forall>g \<in> set (1 # [70, X86_kAVX]). g < kMaxFeatures"
    by simp
  note t = addIf_false_is_noop [OF width_64 wf_Data_64 all, of "0x6000" 0 0 0]
  have no: "addIf_ids ?d False 1 [70, X86_kAVX] = Some ?d"
    using t by blast
  have run: "addIf_ids ?d True 1 [70, X86_kAVX] = Some ?e"
    by (simp add: eval_64)
  have "\<exists>d'. addIf_ids ?d True 1 [70, X86_kAVX] = Some d'
      \<and> (\<forall>g \<in> set (1 # [70, X86_kAVX]). has d' g = Some True)"
    using t by blast
  then have "has ?e 70 = Some True"
    using run by simp
  then show ?thesis
    using width_64 wf_Data_64 lt no run by blast
qed

section \<open>The sentinel id 0\<close>

lemma apply_mutation_keeps_clear:
  fixes d :: "('w::len) Data"
  assumes w: "LENGTH('w) dvd 256" and wf: "wf_Data d" and clear: "has d g = Some False"
    and g: "g < kMaxFeatures"
    and ids: "\<forall>f \<in> set (ids_of m). f < kMaxFeatures" and notset: "g \<notin> set (ids_set m)"
  shows "\<exists>d'. apply_mutation d m = Some d' \<and> wf_Data d' \<and> has d' g = Some False"
proof (cases m)
  case (Add f fs)
  then have all: "\<forall>h \<in> set (f # fs). h < kMaxFeatures" and out: "g \<notin> set (f # fs)"
    using ids notset by simp_all
  obtain d' where "add_ids d f fs = Some d'" "wf_Data d'"
    and "\<forall>h. h < kMaxFeatures \<longrightarrow> has d' h = Some (h \<in> set (f # fs) \<or> has d h = Some True)"
    using add_ids_has [OF w wf all] by blast
  then show ?thesis
    using Add g out clear by auto
next
  case (AddIf c f fs)
  then have all: "\<forall>h \<in> set (f # fs). h < kMaxFeatures" and out: "c \<longrightarrow> g \<notin> set (f # fs)"
    using ids notset by simp_all
  show ?thesis
  proof (cases c)
    case False
    then show ?thesis
      using AddIf wf clear by (simp add: addIf_ids_eq [OF w wf all])
  next
    case True
    obtain d' where "add_ids d f fs = Some d'" "wf_Data d'"
      and "\<forall>h. h < kMaxFeatures \<longrightarrow> has d' h = Some (h \<in> set (f # fs) \<or> has d h = Some True)"
      using add_ids_has [OF w wf all] by blast
    then show ?thesis
      using AddIf True g out clear by (auto simp add: addIf_ids_eq [OF w wf all])
  qed
next
  case (Remove f fs)
  then have all: "\<forall>h \<in> set (f # fs). h < kMaxFeatures"
    using ids by simp
  obtain d' where "remove_ids d f fs = Some d'" "wf_Data d'"
    and "\<forall>h. h < kMaxFeatures \<longrightarrow> has d' h = Some (h \<notin> set (f # fs) \<and> has d h = Some True)"
    using remove_ids_has [OF w wf all] by blast
  then show ?thesis
    using Remove g clear by auto
qed

lemma run_mutations_keeps_clear:
  fixes d :: "('w::len) Data"
  assumes w: "LENGTH('w) dvd 256" and g: "g < kMaxFeatures"
  shows "wf_Data d \<Longrightarrow> has d g = Some False \<Longrightarrow>
         \<forall>m \<in> set ms. \<forall>f \<in> set (ids_of m). f < kMaxFeatures \<Longrightarrow>
         \<forall>m \<in> set ms. g \<notin> set (ids_set m) \<Longrightarrow>
         \<exists>d'. run_mutations d ms = Some d' \<and> wf_Data d' \<and> has d' g = Some False"
proof (induction ms arbitrary: d)
  case Nil
  then show ?case by simp
next
  case (Cons m ms)
  have "\<forall>f \<in> set (ids_of m). f < kMaxFeatures" and "g \<notin> set (ids_set m)"
    using Cons.prems(3,4) by simp_all
  then obtain d1 where d1: "apply_mutation d m = Some d1" "wf_Data d1" "has d1 g = Some False"
    using apply_mutation_keeps_clear [OF w Cons.prems(1,2) g] by blast
  have "\<forall>m \<in> set ms. \<forall>f \<in> set (ids_of m). f < kMaxFeatures" and "\<forall>m \<in> set ms. g \<notin> set (ids_set m)"
    using Cons.prems(3,4) by simp_all
  then obtain d' where "run_mutations d1 ms = Some d'" "wf_Data d'" "has d' g = Some False"
    using Cons.IH [OF d1(2,3)] by blast
  then show ?case
    using d1(1) by simp
qed

text \<open>
  C8, as stated, fails: the mutation operations only assert \<open>featureId < kMaxFeatures\<close>, so
  \<open>add(kNone)\<close> on the zero-initialised set succeeds and sets bit 0.
\<close>

theorem kNone_can_be_set:
  "run_mutations (Data_init :: 64 Data) [Add X86_kNone []] = Some \<lparr>bits = [1, 0, 0, 0]\<rparr>
   \<and> has (\<lparr>bits = [1, 0, 0, 0]\<rparr> :: 64 Data) X86_kNone = Some True"
  by (simp add: Data_init_64 eval_64)

text \<open>
  C8, amended. Feature id 0 (\<open>kNone\<close> of the X86 and of the ARM namespace) stays clear in
  every feature set reached from the zero-initialised state by calls of \<open>add\<close>, \<open>addIf\<close> and
  \<open>remove\<close> on ids below 256 in which id 0 is never passed to \<open>add\<close> nor to \<open>addIf\<close> with
  a true condition: every such sequence of calls succeeds and \<open>has(0)\<close> is false afterwards.
\<close>

theorem kNone_stays_clear:
  fixes ms :: "mutation list"
  assumes "LENGTH('w::len) dvd 256"
    and "\<forall>m \<in> set ms. \<forall>f \<in> set (ids_of m). f < kMaxFeatures"
    and "\<forall>m \<in> set ms. 0 \<notin> set (ids_set m)"
  shows "X86_kNone = 0 \<and> ARM_kNone = 0
       \<and> (\<exists>d :: 'w Data. run_mutations Data_init ms = Some d \<and> has d 0 = Some False)"
proof -
  have zero: "(0 :: u32) < kMaxFeatures"
    by (simp add: kMaxFeatures_def)
  have "has (Data_init :: 'w Data) 0 = Some False"
    by (rule has_Data_init [OF assms(1) zero])
  then have "\<exists>d :: 'w Data. run_mutations Data_init ms = Some d \<and> wf_Data d \<and> has d 0 = Some False"
    using run_mutations_keeps_clear [OF assms(1) zero wf_Data_init _ assms(2,3)] by blast
  then show ?thesis
    by (auto simp add: X86_kNone_def ARM_kNone_def)
qed

theorem kNone_stays_clear_witness:
  "LENGTH(64) dvd (256 :: nat)
   \<and> X86_kAVX < kMaxFeatures \<and> X86_kAVX2 < kMaxFeatures \<and> X86_kNone < kMaxFeatures
   \<and> X86_kAVX \<noteq> 0 \<and> X86_kAVX2 \<noteq> 0
   \<and> run_mutations (Data_init :: 64 Data)
        [Add X86_kAVX [X86_kAVX2], AddIf False X86_kNone [], Remove X86_kNone [X86_kAVX]]
       = Some \<lparr>bits = [0x4000, 0, 0, 0]\<rparr>
   \<and> has (\<lparr>bits = [0x4000, 0, 0, 0]\<rparr> :: 64 Data) 0 = Some False"
proof -
  let ?ms = "[Add X86_kAVX [X86_kAVX2], AddIf False X86_kNone [], Remove X86_kNone [X86_kAVX]]"
  have lt: "X86_kAVX < kMaxFeatures" "X86_kAVX2 < kMaxFeatures" "X86_kNone < kMaxFeatures"
    and ne: "X86_kAVX \<noteq> 0" "X86_kAVX2 \<noteq> 0"
    by (simp_all add: eval_64)
  have ids: "\<forall>m \<in> set ?ms. \<forall>f \<in> set (ids_of m). f < kMaxFeatures"
    using lt by simp
  have nz: "\<forall>m \<in> set ?ms. 0 \<notin> set (ids_set m)"
    using ne by simp
  have run: "run_mutations (Data_init :: 64 Data) ?ms = Some \<lparr>bits = [0x4000, 0, 0, 0]\<rparr>"
    by (simp add: Data_init_64 eval_64)
  have "\<exists>d :: 64 Data. run_mutations Data_init ?ms = Some d \<and> has d 0 = Some False"
    using kNone_stays_clear [OF width_64 ids nz] by blast
  then have "has (\<lparr>bits = [0x4000, 0, 0, 0]\<rparr> :: 64 Data) 0 = Some False"
    using run by simp
  then show ?thesis
    using width_64 lt ne run by blast
qed

section \<open>CpuInfo\<close>

lemma empty_replicate_zero: "empty \<lparr>bits = replicate n 0\<rparr>"
  by (simp add: empty_iff)

lemma c_str_zeros: "c_str (replicate (Suc n) (CHR 0x00)) = Some []"
  by (simp add: c_str_def)

text \<open>
  C6. A default-constructed \<open>CpuInfo\<close> is the all-zero state, whatever its storage held
  before: \<open>wasDetected\<close> is false, \<open>hwThreadCount\<close> is 0, the vendor and brand strings are
  empty, the embedded feature set is empty (it is the zero-initialised one), and every other
  scalar field is 0.
\<close>

theorem default_CpuInfo_is_zero:
  fixes storage :: "('w::len) CpuInfo"
  shows "\<not> wasDetected (CpuInfo_new storage)
       \<and> hwThreadCount (CpuInfo_new storage) = 0
       \<and> vendor (CpuInfo_new storage) = Some []
       \<and> brand (CpuInfo_new storage) = Some []
       \<and> CpuFeatures_empty (features (CpuInfo_new storage))
       \<and> data (features (CpuInfo_new storage)) = Data_init
       \<and> arch (CpuInfo_new storage) = 0
       \<and> subArch (CpuInfo_new storage) = 0
       \<and> m_reserved (CpuInfo_new storage) = 0
       \<and> familyId (CpuInfo_new storage) = 0
       \<and> modelId (CpuInfo_new storage) = 0
       \<and> brandId (CpuInfo_new storage) = 0
       \<and> stepping (CpuInfo_new storage) = 0
       \<and> processorType (CpuInfo_new storage) = 0
       \<and> maxLogicalProcessors (CpuInfo_new storage) = 0
       \<and> cacheLineSize (CpuInfo_new storage) = 0
       \<and> CpuInfo_new storage = CpuInfo_new other_storage"
proof -
  have v: "c_str (replicate 16 (CHR 0x00)) = Some []"
    using c_str_zeros [of 15] by simp
  have b: "c_str (replicate 64 (CHR 0x00)) = Some []"
    using c_str_zeros [of 63] by simp
  show ?thesis
    by (simp add: CpuInfo_new_def CpuInfo_reset_def wasDetected_def hwThreadCount_def vendor_def
        brand_def CpuFeatures_empty_def features_def arch_def subArch_def familyId_def modelId_def
        brandId_def stepping_def processorType_def maxLogicalProcessors_def cacheLineSize_def
        Data_init_def empty_replicate_zero v b)
qed

text \<open>
  C7. \<open>initArch(arch, subArch)\<close> sets the architecture and the sub-architecture tag, and
  leaves every other field as it was: the detected flag, the reserved byte, family, model,
  brand id, stepping, processor type, logical processor count, cache line size, hardware
  thread count, the vendor and brand strings, and the embedded feature set.
\<close>

theorem initArch_sets_only_the_tags:
  fixes c :: "('w::len) CpuInfo"
  shows "arch (initArch c a s) = a
       \<and> subArch (initArch c a s) = s
       \<and> wasDetected (initArch c a s) = wasDetected c
       \<and> m_reserved (initArch c a s) = m_reserved c
       \<and> familyId (initArch c a s) = familyId c
       \<and> modelId (initArch c a s) = modelId c
       \<and> brandId (initArch c a s) = brandId c
       \<and> stepping (initArch c a s) = stepping c
       \<and> processorType (initArch c a s) = processorType c
       \<and> maxLogicalProcessors (initArch c a s) = maxLogicalProcessors c
       \<and> cacheLineSize (initArch c a s) = cacheLineSize c
       \<and> hwThreadCount (initArch c a s) = hwThreadCount c
       \<and> m_vendor (initArch c a s) = m_vendor c
       \<and> vendor (initArch c a s) = vendor c
       \<and> m_brand (initArch c a s) = m_brand c
       \<and> brand (initArch c a s) = brand c
       \<and> features (initArch c a s) = features c"
  by (simp add: initArch_def wasDetected_def hwThreadCount_def vendor_def
      brand_def features_def arch_def subArch_def familyId_def modelId_def
      brandId_def stepping_def processorType_def maxLogicalProcessors_def cacheLineSize_def)

end
